theory Spec2Isabelle
  imports Complex_Main "HOL-Library.Log_Nat"
begin

text \<open>
  bbalgjs: the Baba algorithm for deciding, from a long and a short history of boolean
  tracking results, whether a state is in progress, has just started or has just
  ended, together with the fixed-size queue that holds such a history. The theory
  embeds the two definitions of \<open>stateVerdict\<close> and \<open>createFixedQueue\<close> as functions
  on JavaScript values and proves the properties that the specification claims.
\<close>

section \<open>JavaScript values\<close>

text \<open>
  A JavaScript Number is an IEEE-754 binary64 value. Finite doubles are modelled by the
  rational they denote (both zeros are \<open>Fin 0\<close>; no comparison of the program tells
  them apart); the three special values are constructors of their own.
\<close>

datatype jsnum = NaN | PosInf | NegInf | Fin rat

text \<open>
  The values that can be passed to the library. \<open>JObject\<close> stands for every object
  that is not an array. The elements of an array are values again.
\<close>

datatype jsval =
    JUndefined
  | JNull
  | JBool bool
  | JNum jsnum
  | JStr string
  | JObject
  | JArr "jsval list"

text \<open>The relational operators \<open><\<close> and \<open><=\<close> on Numbers: any comparison with NaN is false.\<close>

fun js_lt :: "jsnum \<Rightarrow> jsnum \<Rightarrow> bool" where
  "js_lt NaN _ = False"
| "js_lt _ NaN = False"
| "js_lt (Fin a) (Fin b) = (a < b)"
| "js_lt NegInf NegInf = False"
| "js_lt NegInf _ = True"
| "js_lt _ NegInf = False"
| "js_lt PosInf _ = False"
| "js_lt (Fin a) PosInf = True"

fun js_le :: "jsnum \<Rightarrow> jsnum \<Rightarrow> bool" where
  "js_le NaN _ = False"
| "js_le _ NaN = False"
| "js_le (Fin a) (Fin b) = (a \<le> b)"
| "js_le NegInf _ = True"
| "js_le _ PosInf = True"
| "js_le PosInf _ = False"
| "js_le (Fin a) NegInf = False"

text \<open>\<open>Array.isArray(v)\<close> and \<open>typeof v === 'number'\<close>.\<close>

fun isArray :: "jsval \<Rightarrow> bool" where
  "isArray (JArr xs) = True"
| "isArray _ = False"

fun is_number :: "jsval \<Rightarrow> bool" where
  "is_number (JNum x) = True"
| "is_number _ = False"

text \<open>
  \<open>v <= 0\<close> and \<open>n < v\<close> for an array length \<open>n\<close>, at the places where the program has
  already established \<open>typeof v === 'number'\<close>. No coercion is modelled: on a value that
  is not a Number both are False, and the program never evaluates them there.
\<close>

fun le_zero :: "jsval \<Rightarrow> bool" where
  "le_zero (JNum x) = js_le x (Fin 0)"
| "le_zero _ = False"

fun length_lt :: "int \<Rightarrow> jsval \<Rightarrow> bool" where
  "length_lt n (JNum x) = js_lt (Fin (of_int n)) x"
| "length_lt n _ = False"

text \<open>\<open>Number.isInteger(v)\<close>: a finite Number with no fractional part.\<close>

fun isInteger :: "jsval \<Rightarrow> bool" where
  "isInteger (JNum (Fin q)) = (of_int \<lfloor>q\<rfloor> = q)"
| "isInteger _ = False"

section \<open>Division and decimal literals in binary64\<close>

text \<open>
  \<open>a / b\<close> on Numbers is the exact quotient rounded to the nearest double, ties to the
  even significand; a decimal literal such as \<open>0.9\<close> denotes the double nearest to it,
  rounded the same way. \<open>rne\<close> rounds a rational to the nearest integer, ties to even.
  \<open>expo x\<close> is the binary exponent of a positive rational, \<open>2 ^ expo x \<le> x < 2 ^ (expo x + 1)\<close>,
  computed from the bit lengths of numerator and denominator. \<open>to_double\<close> keeps 53
  significant bits. It covers the values the program divides and writes, which are
  non-negative and, when not zero, lie between \<open>2 ^ - 32\<close> and 1: far inside the normal
  range of binary64, so that neither overflow nor subnormal numbers are modelled.
\<close>

definition rne :: "rat \<Rightarrow> int" where
  "rne x = (let f = \<lfloor>x\<rfloor>; r = x - of_int f
            in if r < 1 / 2 then f else if 1 / 2 < r then f + 1
               else if even f then f else f + 1)"

definition expo :: "rat \<Rightarrow> int" where
  "expo x = (let (a, b) = quotient_of x; d = bitlen a - bitlen b
             in if 2 powi d \<le> x then d else d - 1)"

definition to_double :: "rat \<Rightarrow> rat" where
  "to_double x = (if x \<le> 0 then 0
                  else let u = 2 powi (expo x - 52) in of_int (rne (x / u)) * u)"

text \<open>The quotient of two integer-valued Numbers, and the three literals of the program.\<close>

definition js_div :: "int \<Rightarrow> int \<Rightarrow> rat" where
  "js_div a b = to_double (of_int a / of_int b)"

definition lit_0_5 :: rat where "lit_0_5 = to_double (1 / 2)"

definition lit_0_9 :: rat where "lit_0_9 = to_double (9 / 10)"

definition lit_0_1 :: rat where "lit_0_1 = to_double (1 / 10)"

section \<open>Errors and results\<close>

text \<open>Every \<open>throw new Error(...)\<close> of the library, one constructor per message.\<close>

datatype error =
    NotArrays
  | EmptyHistories
  | InsufficientEntries
  | LongMaxLengthNotPositive
  | ShortMaxLengthNotPositive
  | MaxLengthsNotTogether
  | MaxLengthNotPositiveInteger

fun message :: "error \<Rightarrow> string" where
  "message NotArrays = ''Both tracking histories must be arrays''"
| "message EmptyHistories = ''Tracking histories cannot be empty''"
| "message InsufficientEntries = ''Insufficient history entries for processing''"
| "message LongMaxLengthNotPositive = ''longMaxLength must be a positive number''"
| "message ShortMaxLengthNotPositive = ''shortMaxLength must be a positive number''"
| "message MaxLengthsNotTogether = ''Both maxLength parameters must be provided together''"
| "message MaxLengthNotPositiveInteger = ''maxLength must be a positive integer''"

text \<open>
  The specification sorts the errors into two kinds: a history that is not empty but
  shorter than two entries is \<open>InsufficientHistory\<close>, everything else is
  \<open>InvalidArgument\<close>.
\<close>

datatype error_kind = InvalidArgument | InsufficientHistory

fun kind :: "error \<Rightarrow> error_kind" where
  "kind InsufficientEntries = InsufficientHistory"
| "kind _ = InvalidArgument"

record verdict =
  stateInProgress :: bool
  stateStartJudgment :: bool
  stateEndJudgment :: bool

definition all_false :: verdict where
  "all_false = \<lparr>stateInProgress = False, stateStartJudgment = False, stateEndJudgment = False\<rparr>"

text \<open>\<open>history.filter(val => val === true).length\<close>\<close>

definition trueCount :: "jsval list \<Rightarrow> int" where
  "trueCount history = int (length (filter (\<lambda>val. val = JBool True) history))"

section \<open>stateVerdict in ratio mode (two parameters)\<close>

text \<open>
  The repository holds two definitions of \<open>stateVerdict\<close>. This is the one with the two
  history parameters only: it throws on empty and on too short histories, and compares
  the ratios of true entries with 0.5, 0.9 and 0.1.
\<close>

definition stateVerdict_A :: "jsval \<Rightarrow> jsval \<Rightarrow> error + verdict" where
  "stateVerdict_A longTrackingHistory shortTrackingHistory =
     (case (longTrackingHistory, shortTrackingHistory) of
        (JArr long, JArr short) \<Rightarrow>
          let longLength = int (length long);
              shortLength = int (length short)
          in if longLength = 0 \<or> shortLength = 0 then Inl EmptyHistories
             else if longLength < 2 \<or> shortLength < 2 then Inl InsufficientEntries
             else
               let longTrueCount = trueCount long;
                   shortTrueCount = trueCount short;
                   longRatio = js_div longTrueCount longLength;
                   shortRatio = js_div shortTrueCount shortLength
               in Inr \<lparr>stateInProgress = (lit_0_5 < longRatio \<and> lit_0_9 \<le> shortRatio),
                        stateStartJudgment = (longRatio = lit_0_5 \<and> lit_0_9 \<le> shortRatio),
                        stateEndJudgment = (longRatio = lit_0_5 \<and> shortRatio \<le> lit_0_1)\<rparr>
      | _ \<Rightarrow> Inl NotArrays)"

section \<open>stateVerdict with expected lengths (four parameters)\<close>

text \<open>
  The other definition of \<open>stateVerdict\<close>, with the optional parameters
  \<open>longMaxLength\<close> and \<open>shortMaxLength\<close>; a parameter that is left out is
  \<open>JUndefined\<close>.

  The validation of the two optional length parameters: the block guarded by
  \<open>longMaxLength !== undefined || shortMaxLength !== undefined\<close>. \<open>None\<close> means that
  nothing was thrown.
\<close>

definition check_maxLengths :: "jsval \<Rightarrow> jsval \<Rightarrow> error option" where
  "check_maxLengths longMaxLength shortMaxLength =
     (if longMaxLength \<noteq> JUndefined \<or> shortMaxLength \<noteq> JUndefined then
        if longMaxLength \<noteq> JUndefined \<and> (\<not> is_number longMaxLength \<or> le_zero longMaxLength)
          then Some LongMaxLengthNotPositive
        else if shortMaxLength \<noteq> JUndefined \<and> (\<not> is_number shortMaxLength \<or> le_zero shortMaxLength)
          then Some ShortMaxLengthNotPositive
        else if (longMaxLength = JUndefined) \<noteq> (shortMaxLength = JUndefined)
          then Some MaxLengthsNotTogether
        else None
      else None)"

text \<open>
  The three count formulas at the end of the function. \<open>longLength / 2\<close> is exact in
  binary floating point, so \<open>Math.floor(longLength / 2)\<close> is integer division
  (lemma \<open>floor_half_exact\<close> below).
\<close>

definition count_verdict :: "jsval list \<Rightarrow> jsval list \<Rightarrow> verdict" where
  "count_verdict long short =
     (let longLength = int (length long);
          shortLength = int (length short);
          longTrueCount = trueCount long;
          shortTrueCount = trueCount short
      in \<lparr>stateInProgress =
             (longTrueCount \<ge> longLength div 2 \<and> shortTrueCount \<ge> shortLength - 1),
           stateStartJudgment =
             (longTrueCount = longLength div 2 \<and> shortTrueCount \<ge> shortLength - 1),
           stateEndJudgment =
             (longTrueCount = longLength div 2 \<and> shortTrueCount \<le> 1)\<rparr>)"

definition stateVerdict_B :: "jsval \<Rightarrow> jsval \<Rightarrow> jsval \<Rightarrow> jsval \<Rightarrow> error + verdict" where
  "stateVerdict_B longTrackingHistory shortTrackingHistory longMaxLength shortMaxLength =
     (case (longTrackingHistory, shortTrackingHistory) of
        (JArr long, JArr short) \<Rightarrow>
          (case check_maxLengths longMaxLength shortMaxLength of
             Some e \<Rightarrow> Inl e
           | None \<Rightarrow>
               let longLength = int (length long);
                   shortLength = int (length short)
               in if longLength = 0 \<or> shortLength = 0 then Inr all_false
                  else if longMaxLength \<noteq> JUndefined \<and> shortMaxLength \<noteq> JUndefined
                          \<and> (length_lt longLength longMaxLength
                               \<or> length_lt shortLength shortMaxLength)
                    then Inr all_false
                  else Inr (count_verdict long short))
      | _ \<Rightarrow> Inl NotArrays)"

section \<open>createFixedQueue\<close>

text \<open>
  The closure returned by \<open>createFixedQueue\<close> owns the array \<open>items\<close> and the constant
  \<open>maxLength\<close>; the queue is the record of the two, and \<open>push\<close> returns the updated queue.
\<close>

record 'a fixed_queue =
  items :: "'a list"
  maxLength :: int

definition createFixedQueue :: "jsval \<Rightarrow> error + 'a fixed_queue" where
  "createFixedQueue v =
     (if \<not> isInteger v \<or> le_zero v then Inl MaxLengthNotPositiveInteger
      else case v of
             JNum (Fin q) \<Rightarrow> Inr \<lparr>items = [], maxLength = \<lfloor>q\<rfloor>\<rparr>
           | _ \<Rightarrow> Inl MaxLengthNotPositiveInteger)"

text \<open>\<open>items.push(item)\<close>, then \<open>items.shift()\<close> when the array has grown past the capacity.\<close>

definition push :: "'a fixed_queue \<Rightarrow> 'a \<Rightarrow> 'a fixed_queue" where
  "push q item =
     (let pushed = items q @ [item]
      in if int (length pushed) > maxLength q then q\<lparr>items := tl pushed\<rparr>
         else q\<lparr>items := pushed\<rparr>)"

definition toArray :: "'a fixed_queue \<Rightarrow> 'a list" where
  "toArray q = items q"

definition queue_length :: "'a fixed_queue \<Rightarrow> int" where
  "queue_length q = int (length (items q))"

section \<open>The specification's formulas\<close>

text \<open>
  The definitions of this section follow the words of the specification, not the code;
  the theorems below compare the code with them.

  A positive numeric value: a Number \<open>x\<close> with \<open>0 < x\<close>. NaN is not one.
\<close>

definition positive :: "jsnum \<Rightarrow> bool" where
  "positive x = js_lt (Fin 0) x"

text \<open>
  Variant A: \<open>longRatio = countTrue(long)/length(long)\<close>,
  \<open>shortRatio = countTrue(short)/length(short)\<close>, as exact fractions, compared with the
  exact numbers 1/2, 9/10 and 1/10.
\<close>

definition spec_ratio_formulas :: "jsval list \<Rightarrow> jsval list \<Rightarrow> verdict" where
  "spec_ratio_formulas long short =
     (let longRatio = (of_int (trueCount long) :: rat) / of_int (int (length long));
          shortRatio = (of_int (trueCount short) :: rat) / of_int (int (length short))
      in \<lparr>stateInProgress = (longRatio > 1 / 2 \<and> shortRatio \<ge> 9 / 10),
           stateStartJudgment = (longRatio = 1 / 2 \<and> shortRatio \<ge> 9 / 10),
           stateEndJudgment = (longRatio = 1 / 2 \<and> shortRatio \<le> 1 / 10)\<rparr>)"

text \<open>
  Variant B: with \<open>N = length(long)\<close>, \<open>M = length(short)\<close>, \<open>longTrue = countTrue(long)\<close>,
  \<open>shortTrue = countTrue(short)\<close>, the three formulas with \<open>floor(N/2)\<close>, \<open>M - 1\<close> and 1.
\<close>

definition spec_count_formulas :: "jsval list \<Rightarrow> jsval list \<Rightarrow> verdict" where
  "spec_count_formulas long short =
     (let N = int (length long);
          M = int (length short);
          longTrue = trueCount long;
          shortTrue = trueCount short
      in \<lparr>stateInProgress = (longTrue \<ge> \<lfloor>(of_int N :: rat) / 2\<rfloor> \<and> shortTrue \<ge> M - 1),
           stateStartJudgment = (longTrue = \<lfloor>(of_int N :: rat) / 2\<rfloor> \<and> shortTrue \<ge> M - 1),
           stateEndJudgment = (longTrue = \<lfloor>(of_int N :: rat) / 2\<rfloor> \<and> shortTrue \<le> 1)\<rparr>)"

section \<open>Properties of the fixed queue\<close>

lemma createFixedQueue_Inr:
  "createFixedQueue v = Inr q \<Longrightarrow>
     items q = [] \<and> 0 < maxLength q \<and> v = JNum (Fin (of_int (maxLength q)))"
  apply (cases v; simp add: createFixedQueue_def)
  subgoal for x by (cases x; auto simp: not_le split: if_splits)
  done

lemma createFixedQueue_positive_integer:
  "0 < m \<Longrightarrow> createFixedQueue (JNum (Fin (of_int m))) = Inr \<lparr>items = [], maxLength = m\<rparr>"
  by (simp add: createFixedQueue_def not_le)

lemma items_push:
  "items (push q x) =
     (if maxLength q < int (length (items q)) + 1 then tl (items q @ [x]) else items q @ [x])"
  by (simp add: push_def Let_def)

lemma maxLength_push: "maxLength (push q x) = maxLength q"
  by (simp add: push_def Let_def)

lemma maxLength_foldl_push: "maxLength (foldl push q xs) = maxLength q"
  by (induction xs arbitrary: q) (simp_all add: maxLength_push)

text \<open>
  Pushing \<open>xs\<close> one after the other into a fresh queue leaves the last \<open>maxLength\<close>
  of them: induction from the right, since the last push is the outermost call.
\<close>

lemma items_foldl_push:
  assumes "items q = []" and "0 < maxLength q"
  shows "items (foldl push q xs) = drop (length xs - nat (maxLength q)) xs"
proof (induction xs rule: rev_induct)
  case Nil
  then show ?case using assms by simp
next
  case (snoc x xs)
  let ?q = "foldl push q xs"
  have m: "maxLength ?q = maxLength q" by (rule maxLength_foldl_push)
  show ?case
  proof (cases "length xs < nat (maxLength q)")
    case True
    then have "int (length xs) < maxLength q" by linarith
    with True show ?thesis using snoc m by (simp add: items_push)
  next
    case False
    then have ge: "maxLength q \<le> int (length xs)" by linarith
    from False have "items ?q \<noteq> []" using snoc assms by simp
    then have "tl (items ?q @ [x]) = drop 1 (items ?q) @ [x]" by (cases "items ?q") simp_all
    then show ?thesis using False ge snoc m assms
      by (simp add: items_push Suc_diff_le)
  qed
qed

text \<open>
  Claim C9. Let \<open>q0\<close> be a queue that \<open>createFixedQueue\<close> returned, and push the items
  \<open>xs\<close> (any number \<open>k\<close> of them, of any type) into it in order. Then the length of the
  queue is between 0 and \<open>maxLength\<close>, the capacity is unchanged, the length is
  \<open>min k maxLength\<close>, and \<open>toArray\<close> is the list of the most recent
  \<open>min k maxLength\<close> items, oldest first. As \<open>xs\<close> is arbitrary, this holds after
  every single push.
\<close>

theorem fixed_queue_invariant_and_contents:
  assumes "createFixedQueue v = Inr q0"
  shows "0 \<le> queue_length (foldl push q0 xs)
       \<and> queue_length (foldl push q0 xs) \<le> maxLength (foldl push q0 xs)
       \<and> maxLength (foldl push q0 xs) = maxLength q0
       \<and> queue_length (foldl push q0 xs) = min (int (length xs)) (maxLength q0)
       \<and> toArray (foldl push q0 xs)
           = drop (length xs - min (length xs) (nat (maxLength q0))) xs"
proof -
  from assms have i: "items q0 = []" and p: "0 < maxLength q0"
    using createFixedQueue_Inr by blast+
  have it: "items (foldl push q0 xs) = drop (length xs - nat (maxLength q0)) xs"
    by (rule items_foldl_push[OF i p])
  have "length xs - min (length xs) (nat (maxLength q0)) = length xs - nat (maxLength q0)"
    by simp
  then show ?thesis
    using p by (auto simp: queue_length_def toArray_def it maxLength_foldl_push)
qed

theorem fixed_queue_invariant_and_contents_witness:
  "createFixedQueue (JNum (Fin 3)) = Inr \<lparr>items = ([] :: bool list), maxLength = 3\<rparr>
   \<and> queue_length (foldl push \<lparr>items = [], maxLength = 3\<rparr> [True, False, True, False]) = 3
   \<and> toArray (foldl push \<lparr>items = [], maxLength = 3\<rparr> [True, False, True, False])
       = [False, True, False]"
proof -
  have c: "createFixedQueue (JNum (Fin 3)) = Inr \<lparr>items = ([] :: bool list), maxLength = 3\<rparr>"
    by (simp add: createFixedQueue_def)
  show ?thesis
    using c fixed_queue_invariant_and_contents [OF c, of "[True, False, True, False]"]
    by simp
qed

section \<open>Properties of stateVerdict with expected lengths\<close>

lemma positive_not_le_zero: "positive x \<Longrightarrow> \<not> js_le x (Fin 0)"
  by (cases x) (simp_all add: positive_def)

lemma check_maxLengths_positive:
  "positive L \<Longrightarrow> positive S \<Longrightarrow> check_maxLengths (JNum L) (JNum S) = None"
  by (simp add: check_maxLengths_def positive_not_le_zero)

lemma js_le_not_lt: "js_le x (Fin a) \<Longrightarrow> \<not> js_lt (Fin a) x"
  by (cases x) simp_all

lemma positive_le_length:
  "positive x \<Longrightarrow> js_le x (Fin (of_int (int (length xs)))) \<Longrightarrow> xs \<noteq> []"
  by (cases x) (auto simp: positive_def)

text \<open>The code's integer division is the specification's \<open>floor(N/2)\<close>.\<close>

lemma count_verdict_spec: "count_verdict long short = spec_count_formulas long short"
proof -
  have "\<lfloor>(of_int n :: rat) / 2\<rfloor> = n div 2" for n :: int
    by (metis floor_divide_of_int_eq of_int_numeral)
  then show ?thesis by (simp add: count_verdict_def spec_count_formulas_def)
qed

lemma complete_history_result:
  assumes "positive L" and "positive S"
    and "js_le L (Fin (of_int (int (length long))))"
    and "js_le S (Fin (of_int (int (length short))))"
  shows "stateVerdict_B (JArr long) (JArr short) (JNum L) (JNum S)
           = Inr (count_verdict long short)"
proof -
  have "long \<noteq> []" "short \<noteq> []"
    using assms positive_le_length by blast+
  with assms show ?thesis
    by (simp add: stateVerdict_B_def check_maxLengths_positive js_le_not_lt)
qed

text \<open>
  Claim C4. Let both length parameters be positive Numbers \<open>L\<close> and \<open>S\<close>. If one of the
  two histories is empty, or the long history has fewer than \<open>L\<close> entries, or the short
  one fewer than \<open>S\<close>, then \<open>stateVerdict\<close> throws nothing and returns the verdict with
  all three flags false. The entries of the arrays may be any values.
\<close>

theorem incomplete_history_all_false:
  assumes "positive L" and "positive S"
    and "long = [] \<or> short = []
          \<or> js_lt (Fin (of_int (int (length long)))) L
          \<or> js_lt (Fin (of_int (int (length short)))) S"
  shows "stateVerdict_B (JArr long) (JArr short) (JNum L) (JNum S) = Inr all_false"
  using assms by (auto simp: stateVerdict_B_def check_maxLengths_positive)

theorem incomplete_history_all_false_witness:
  "positive (Fin 5) \<and> positive (Fin 2)
   \<and> js_lt (Fin (of_int (int (length [JBool True, JBool True, JBool True])))) (Fin 5)
   \<and> stateVerdict_B (JArr [JBool True, JBool True, JBool True]) (JArr [JBool True, JBool True])
         (JNum (Fin 5)) (JNum (Fin 2)) = Inr all_false"
proof -
  have p: "positive (Fin 5)" "positive (Fin 2)" by (simp_all add: positive_def)
  have g: "js_lt (Fin (of_int (int (length [JBool True, JBool True, JBool True])))) (Fin 5)"
    by simp
  show ?thesis
    using p g incomplete_history_all_false [of "Fin 5" "Fin 2"
                "[JBool True, JBool True, JBool True]" "[JBool True, JBool True]"]
    by blast
qed

text \<open>
  Claim C5. Let both length parameters be positive Numbers, \<open>L \<le> length long\<close> and
  \<open>S \<le> length short\<close>. Then \<open>stateVerdict\<close> returns the three flags of the
  specification's count formulas: with \<open>N\<close> and \<open>M\<close> the two lengths and \<open>longTrue\<close>,
  \<open>shortTrue\<close> the numbers of entries that are \<open>true\<close>,
  stateInProgress is \<open>longTrue \<ge> floor(N/2) \<and> shortTrue \<ge> M - 1\<close>,
  stateStartJudgment is \<open>longTrue = floor(N/2) \<and> shortTrue \<ge> M - 1\<close>,
  stateEndJudgment is \<open>longTrue = floor(N/2) \<and> shortTrue \<le> 1\<close>.
  In particular \<open>stateVerdict([F,F,T,T],[T,T],4,2)\<close> is \<open>{true, true, false}\<close>.
\<close>

theorem complete_history_count_formulas:
  assumes "positive L" and "positive S"
    and "js_le L (Fin (of_int (int (length long))))"
    and "js_le S (Fin (of_int (int (length short))))"
  shows "stateVerdict_B (JArr long) (JArr short) (JNum L) (JNum S)
           = Inr (spec_count_formulas long short)
       \<and> stateVerdict_B (JArr [JBool False, JBool False, JBool True, JBool True])
            (JArr [JBool True, JBool True]) (JNum (Fin 4)) (JNum (Fin 2))
           = Inr \<lparr>stateInProgress = True, stateStartJudgment = True, stateEndJudgment = False\<rparr>"
proof -
  have "stateVerdict_B (JArr [JBool False, JBool False, JBool True, JBool True])
            (JArr [JBool True, JBool True]) (JNum (Fin 4)) (JNum (Fin 2))
           = Inr \<lparr>stateInProgress = True, stateStartJudgment = True, stateEndJudgment = False\<rparr>"
    by (simp add: stateVerdict_B_def check_maxLengths_def count_verdict_def trueCount_def)
  with complete_history_result[OF assms] show ?thesis
    by (simp add: count_verdict_spec)
qed

theorem complete_history_count_formulas_witness:
  "positive (Fin 4) \<and> positive (Fin 2)
   \<and> js_le (Fin 4) (Fin (of_int (int (length [JBool True, JBool True, JBool True, JBool False]))))
   \<and> js_le (Fin 2) (Fin (of_int (int (length [JBool True, JBool True]))))
   \<and> stateVerdict_B (JArr [JBool True, JBool True, JBool True, JBool False])
         (JArr [JBool True, JBool True]) (JNum (Fin 4)) (JNum (Fin 2))
       = Inr \<lparr>stateInProgress = True, stateStartJudgment = False, stateEndJudgment = False\<rparr>"
proof -
  have p: "positive (Fin 4)" "positive (Fin 2)" by (simp_all add: positive_def)
  have c: "js_le (Fin 4) (Fin (of_int (int (length [JBool True, JBool True, JBool True, JBool False]))))"
    "js_le (Fin 2) (Fin (of_int (int (length [JBool True, JBool True]))))" by simp_all
  have v: "spec_count_formulas [JBool True, JBool True, JBool True, JBool False]
             [JBool True, JBool True]
      = \<lparr>stateInProgress = True, stateStartJudgment = False, stateEndJudgment = False\<rparr>"
    by (simp add: spec_count_formulas_def trueCount_def)
  show ?thesis
    using p c v complete_history_count_formulas [OF p c] by simp
qed

text \<open>
  Claim C8. With both lengths supplied, positive, and both histories complete: whenever
  the returned stateStartJudgment is true, stateInProgress is true as well. And there
  is such a call, at the boundary \<open>longTrue = floor(N/2)\<close> with \<open>shortTrue \<ge> M - 1\<close>,
  that returns both flags true.
\<close>

theorem start_judgment_implies_in_progress:
  assumes "positive L" and "positive S"
    and "js_le L (Fin (of_int (int (length long))))"
    and "js_le S (Fin (of_int (int (length short))))"
    and "stateVerdict_B (JArr long) (JArr short) (JNum L) (JNum S) = Inr r"
  shows "(stateStartJudgment r \<longrightarrow> stateInProgress r)
       \<and> (\<exists>long' short' L' S' r'.
             positive L' \<and> positive S'
             \<and> js_le L' (Fin (of_int (int (length long'))))
             \<and> js_le S' (Fin (of_int (int (length short'))))
             \<and> stateVerdict_B (JArr long') (JArr short') (JNum L') (JNum S') = Inr r'
             \<and> trueCount long' = int (length long') div 2
             \<and> trueCount short' \<ge> int (length short') - 1
             \<and> stateStartJudgment r' \<and> stateInProgress r')"
proof
  from complete_history_result[OF assms(1-4)] assms(5)
  have "r = count_verdict long short" by simp
  then show "stateStartJudgment r \<longrightarrow> stateInProgress r"
    by (simp add: count_verdict_def Let_def)
next
  let ?long = "[JBool False, JBool False, JBool True, JBool True]"
  let ?short = "[JBool True, JBool True]"
  let ?r = "\<lparr>stateInProgress = True, stateStartJudgment = True, stateEndJudgment = False\<rparr>"
  have "stateVerdict_B (JArr ?long) (JArr ?short) (JNum (Fin 4)) (JNum (Fin 2)) = Inr ?r"
    by (simp add: stateVerdict_B_def check_maxLengths_def count_verdict_def trueCount_def)
  moreover have "positive (Fin 4)" "positive (Fin 2)"
    by (simp_all add: positive_def)
  moreover have "trueCount ?long = int (length ?long) div 2"
    "trueCount ?short \<ge> int (length ?short) - 1"
    by (simp_all add: trueCount_def)
  moreover have "js_le (Fin 4) (Fin (of_int (int (length ?long))))"
    "js_le (Fin 2) (Fin (of_int (int (length ?short))))"
    by simp_all
  ultimately show "\<exists>long' short' L' S' r'.
             positive L' \<and> positive S'
             \<and> js_le L' (Fin (of_int (int (length long'))))
             \<and> js_le S' (Fin (of_int (int (length short'))))
             \<and> stateVerdict_B (JArr long') (JArr short') (JNum L') (JNum S') = Inr r'
             \<and> trueCount long' = int (length long') div 2
             \<and> trueCount short' \<ge> int (length short') - 1
             \<and> stateStartJudgment r' \<and> stateInProgress r'"
    by (intro exI[of _ ?long] exI[of _ ?short] exI[of _ "Fin 4"] exI[of _ "Fin 2"]
          exI[of _ ?r]) simp
qed

theorem start_judgment_implies_in_progress_witness:
  "positive (Fin 6) \<and> positive (Fin 3)
   \<and> js_le (Fin 6) (Fin (of_int (int (length
        [JBool False, JBool False, JBool False, JBool True, JBool True, JBool True]))))
   \<and> js_le (Fin 3) (Fin (of_int (int (length [JBool True, JBool True, JBool True]))))
   \<and> stateVerdict_B
        (JArr [JBool False, JBool False, JBool False, JBool True, JBool True, JBool True])
        (JArr [JBool True, JBool True, JBool True]) (JNum (Fin 6)) (JNum (Fin 3))
       = Inr \<lparr>stateInProgress = True, stateStartJudgment = True, stateEndJudgment = False\<rparr>
   \<and> stateStartJudgment
         \<lparr>stateInProgress = True, stateStartJudgment = True, stateEndJudgment = False\<rparr>
   \<and> stateInProgress
         \<lparr>stateInProgress = True, stateStartJudgment = True, stateEndJudgment = False\<rparr>"
proof -
  let ?long = "[JBool False, JBool False, JBool False, JBool True, JBool True, JBool True]"
  let ?short = "[JBool True, JBool True, JBool True]"
  have p: "positive (Fin 6)" "positive (Fin 3)" by (simp_all add: positive_def)
  have c: "js_le (Fin 6) (Fin (of_int (int (length ?long))))"
    "js_le (Fin 3) (Fin (of_int (int (length ?short))))" by simp_all
  have v: "stateVerdict_B (JArr ?long) (JArr ?short) (JNum (Fin 6)) (JNum (Fin 3))
       = Inr \<lparr>stateInProgress = True, stateStartJudgment = True, stateEndJudgment = False\<rparr>"
    by (simp add: stateVerdict_B_def check_maxLengths_def count_verdict_def trueCount_def)
  show ?thesis
    using p c v start_judgment_implies_in_progress [OF p c v] by simp
qed

text \<open>
  Claim C3, as stated, for the empty histories: the call with both lengths left out
  returns the all-false verdict, while the count formulas on \<open>N = 0\<close> and \<open>M = 0\<close>
  give three true flags (\<open>0 \<ge> floor(0/2)\<close>, \<open>0 \<ge> 0 - 1\<close>, \<open>0 \<le> 1\<close>).
\<close>

theorem omitted_lengths_empty_not_formulas:
  "stateVerdict_B (JArr []) (JArr []) JUndefined JUndefined = Inr all_false
   \<and> spec_count_formulas [] []
       = \<lparr>stateInProgress = True, stateStartJudgment = True, stateEndJudgment = True\<rparr>
   \<and> stateVerdict_B (JArr []) (JArr []) JUndefined JUndefined
       \<noteq> Inr (spec_count_formulas [] [])"
  by (simp add: stateVerdict_B_def check_maxLengths_def spec_count_formulas_def
        trueCount_def all_false_def)

text \<open>
  Claim C3, amended. For every pair of arrays that are both non-empty, the call with
  both lengths left out returns the flags of the count formulas on \<open>N = length long\<close>
  and \<open>M = length short\<close>, whatever the lengths are: there is no completeness gate. If
  one of the arrays is empty it returns the all-false verdict, as the call with lengths
  does. So the call with the lengths left out returns what the call with any positive
  lengths \<open>L\<close>, \<open>S\<close> returns when both histories are complete for them.
\<close>

theorem omitted_lengths_count_formulas:
  "(long \<noteq> [] \<and> short \<noteq> [] \<longrightarrow>
      stateVerdict_B (JArr long) (JArr short) JUndefined JUndefined
        = Inr (spec_count_formulas long short))
   \<and> (long = [] \<or> short = [] \<longrightarrow>
      stateVerdict_B (JArr long) (JArr short) JUndefined JUndefined = Inr all_false)
   \<and> (positive L \<and> positive S
        \<and> js_le L (Fin (of_int (int (length long))))
        \<and> js_le S (Fin (of_int (int (length short)))) \<longrightarrow>
      stateVerdict_B (JArr long) (JArr short) JUndefined JUndefined
        = stateVerdict_B (JArr long) (JArr short) (JNum L) (JNum S))"
proof (intro conjI impI)
  assume "long \<noteq> [] \<and> short \<noteq> []"
  then show "stateVerdict_B (JArr long) (JArr short) JUndefined JUndefined
        = Inr (spec_count_formulas long short)"
    by (simp add: stateVerdict_B_def check_maxLengths_def count_verdict_spec)
next
  assume "long = [] \<or> short = []"
  then show "stateVerdict_B (JArr long) (JArr short) JUndefined JUndefined = Inr all_false"
    by (auto simp: stateVerdict_B_def check_maxLengths_def)
next
  assume a: "positive L \<and> positive S
        \<and> js_le L (Fin (of_int (int (length long))))
        \<and> js_le S (Fin (of_int (int (length short))))"
  then have ne: "long \<noteq> []" "short \<noteq> []"
    using positive_le_length by blast+
  have "stateVerdict_B (JArr long) (JArr short) (JNum L) (JNum S)
          = Inr (count_verdict long short)"
    using a by (intro complete_history_result) simp_all
  moreover have "stateVerdict_B (JArr long) (JArr short) JUndefined JUndefined
          = Inr (count_verdict long short)"
    using ne by (simp add: stateVerdict_B_def check_maxLengths_def)
  ultimately show "stateVerdict_B (JArr long) (JArr short) JUndefined JUndefined
        = stateVerdict_B (JArr long) (JArr short) (JNum L) (JNum S)"
    by simp
qed

theorem omitted_lengths_count_formulas_witness:
  "[JBool True, JBool True, JBool True, JBool False] \<noteq> [] \<and> [JBool True, JBool True] \<noteq> []
   \<and> positive (Fin 4) \<and> positive (Fin 2)
   \<and> js_le (Fin 4) (Fin (of_int (int (length [JBool True, JBool True, JBool True, JBool False]))))
   \<and> js_le (Fin 2) (Fin (of_int (int (length [JBool True, JBool True]))))
   \<and> stateVerdict_B (JArr [JBool True, JBool True, JBool True, JBool False])
        (JArr [JBool True, JBool True]) JUndefined JUndefined
       = Inr \<lparr>stateInProgress = True, stateStartJudgment = False, stateEndJudgment = False\<rparr>
   \<and> stateVerdict_B (JArr [JBool True, JBool True, JBool True, JBool False])
        (JArr [JBool True, JBool True]) JUndefined JUndefined
       = stateVerdict_B (JArr [JBool True, JBool True, JBool True, JBool False])
           (JArr [JBool True, JBool True]) (JNum (Fin 4)) (JNum (Fin 2))
   \<and> stateVerdict_B (JArr []) (JArr [JBool True]) JUndefined JUndefined = Inr all_false"
proof -
  let ?long = "[JBool True, JBool True, JBool True, JBool False]"
  let ?short = "[JBool True, JBool True]"
  have p: "positive (Fin 4)" "positive (Fin 2)" by (simp_all add: positive_def)
  have v: "spec_count_formulas ?long ?short
      = \<lparr>stateInProgress = True, stateStartJudgment = False, stateEndJudgment = False\<rparr>"
    by (simp add: spec_count_formulas_def trueCount_def)
  show ?thesis
    using p v omitted_lengths_count_formulas [of ?long ?short "Fin 4" "Fin 2"]
      omitted_lengths_count_formulas [of "[]" "[JBool True]" "Fin 4" "Fin 2"]
    by auto
qed

text \<open>
  The validation of the length parameters rejects what its conditions name: a length
  that is given without the other, and a given length that is not a Number or is
  \<open><= 0\<close>. Every error it throws is an InvalidArgument.
\<close>

lemma check_maxLengths_kind: "check_maxLengths a b = Some e \<Longrightarrow> kind e = InvalidArgument"
  by (auto simp: check_maxLengths_def split: if_splits)

lemma check_maxLengths_one_missing:
  "(a = JUndefined) \<noteq> (b = JUndefined) \<Longrightarrow> \<exists>e. check_maxLengths a b = Some e"
  by (auto simp: check_maxLengths_def)

lemma check_maxLengths_not_positive:
  assumes "(a \<noteq> JUndefined \<and> (\<not> is_number a \<or> le_zero a))
         \<or> (b \<noteq> JUndefined \<and> (\<not> is_number b \<or> le_zero b))"
  shows "\<exists>e. check_maxLengths a b = Some e"
  using assms by (auto simp: check_maxLengths_def)

lemma stateVerdict_B_invalid_lengths:
  assumes "(a = JUndefined) \<noteq> (b = JUndefined)
         \<or> (a \<noteq> JUndefined \<and> (\<not> is_number a \<or> le_zero a))
         \<or> (b \<noteq> JUndefined \<and> (\<not> is_number b \<or> le_zero b))"
  shows "\<exists>e. stateVerdict_B (JArr long) (JArr short) a b = Inl e \<and> kind e = InvalidArgument"
proof -
  from assms obtain e where e: "check_maxLengths a b = Some e"
    using check_maxLengths_one_missing check_maxLengths_not_positive by metis
  then have "stateVerdict_B (JArr long) (JArr short) a b = Inl e"
    by (simp add: stateVerdict_B_def)
  with e show ?thesis using check_maxLengths_kind by blast
qed

text \<open>
  A Number passes the test \<open>typeof v !== 'number' || v <= 0\<close> exactly when it is
  positive or NaN.
\<close>

lemma passes_validation_iff:
  "(is_number a \<and> \<not> le_zero a) \<longleftrightarrow> (\<exists>x. a = JNum x \<and> (positive x \<or> x = NaN))"
proof (cases a)
  case (JNum x)
  then show ?thesis by (cases x) (auto simp: positive_def)
qed simp_all

text \<open>
  Claim C6 at \<open>stateVerdict([true, true], [true, true], NaN, NaN)\<close>: NaN is not a
  positive Number, and the call returns a verdict instead of throwing.
\<close>

theorem nan_lengths_not_rejected:
  "positive NaN = False
   \<and> stateVerdict_B (JArr [JBool True, JBool True]) (JArr [JBool True, JBool True])
        (JNum NaN) (JNum NaN)
       = Inr \<lparr>stateInProgress = True, stateStartJudgment = False, stateEndJudgment = False\<rparr>"
  by (simp add: positive_def stateVerdict_B_def check_maxLengths_def count_verdict_def
        trueCount_def)

text \<open>
  Claim C10, as stated, for the empty histories: with NaN for both lengths the call
  throws nothing, but it does not evaluate the count formulas as it would for complete
  histories. The empty-history guard returns the all-false verdict, while the formulas
  on \<open>N = 0\<close> and \<open>M = 0\<close> give three true flags.
\<close>

theorem nan_lengths_empty_not_formulas:
  "stateVerdict_B (JArr []) (JArr []) (JNum NaN) (JNum NaN) = Inr all_false
   \<and> spec_count_formulas [] []
       = \<lparr>stateInProgress = True, stateStartJudgment = True, stateEndJudgment = True\<rparr>
   \<and> stateVerdict_B (JArr []) (JArr []) (JNum NaN) (JNum NaN)
       \<noteq> Inr (spec_count_formulas [] [])"
  by (simp add: stateVerdict_B_def check_maxLengths_def spec_count_formulas_def
        trueCount_def all_false_def)

text \<open>
  Claim C10, amended. With NaN for both lengths and arrays for both histories: NaN has
  type number and \<open>NaN <= 0\<close> is false, so the validation throws nothing;
  \<open>length < NaN\<close> is false for every length, so the completeness gate never fires; the
  call returns a verdict, never an error, and it is the verdict of the call with both
  lengths left out. For non-empty histories that is the verdict of the count formulas,
  the same as for the complete histories of the call with
  \<open>longMaxLength = length long\<close> and \<open>shortMaxLength = length short\<close>. If one of the
  histories is empty, it is the all-false verdict of the empty-history guard.
\<close>

theorem nan_lengths_pass_validation:
  "check_maxLengths (JNum NaN) (JNum NaN) = None
   \<and> is_number (JNum NaN) \<and> le_zero (JNum NaN) = False
   \<and> length_lt n (JNum NaN) = False
   \<and> (\<exists>r. stateVerdict_B (JArr long) (JArr short) (JNum NaN) (JNum NaN) = Inr r)
   \<and> stateVerdict_B (JArr long) (JArr short) (JNum NaN) (JNum NaN)
       = stateVerdict_B (JArr long) (JArr short) JUndefined JUndefined
   \<and> (long \<noteq> [] \<and> short \<noteq> [] \<longrightarrow>
        stateVerdict_B (JArr long) (JArr short) (JNum NaN) (JNum NaN)
          = Inr (spec_count_formulas long short)
      \<and> stateVerdict_B (JArr long) (JArr short) (JNum NaN) (JNum NaN)
          = stateVerdict_B (JArr long) (JArr short)
              (JNum (Fin (of_int (int (length long)))))
              (JNum (Fin (of_int (int (length short))))))
   \<and> (long = [] \<or> short = [] \<longrightarrow>
        stateVerdict_B (JArr long) (JArr short) (JNum NaN) (JNum NaN) = Inr all_false)"
  by (auto simp: stateVerdict_B_def check_maxLengths_def count_verdict_spec)

theorem nan_lengths_pass_validation_witness:
  "[JBool False, JBool False, JBool True, JBool True] \<noteq> [] \<and> [JBool True, JBool True] \<noteq> []
   \<and> stateVerdict_B (JArr [JBool False, JBool False, JBool True, JBool True])
        (JArr [JBool True, JBool True]) (JNum NaN) (JNum NaN)
       = Inr \<lparr>stateInProgress = True, stateStartJudgment = True, stateEndJudgment = False\<rparr>
   \<and> stateVerdict_B (JArr [JBool False, JBool False, JBool True, JBool True])
        (JArr [JBool True, JBool True]) (JNum NaN) (JNum NaN)
       = stateVerdict_B (JArr [JBool False, JBool False, JBool True, JBool True])
           (JArr [JBool True, JBool True]) (JNum (Fin 4)) (JNum (Fin 2))
   \<and> stateVerdict_B (JArr [JBool True]) (JArr []) (JNum NaN) (JNum NaN) = Inr all_false"
proof -
  let ?long = "[JBool False, JBool False, JBool True, JBool True]"
  let ?short = "[JBool True, JBool True]"
  have v: "spec_count_formulas ?long ?short
      = \<lparr>stateInProgress = True, stateStartJudgment = True, stateEndJudgment = False\<rparr>"
    by (simp add: spec_count_formulas_def trueCount_def)
  show ?thesis
    using v nan_lengths_pass_validation [of 4 ?long ?short]
      nan_lengths_pass_validation [of 0 "[JBool True]" "[]"]
    by auto
qed

section \<open>Properties of the rounding\<close>

lemma rne_floor: "\<lfloor>x\<rfloor> \<le> rne x \<and> rne x \<le> \<lfloor>x\<rfloor> + 1"
  by (simp add: rne_def Let_def)

lemma rne_of_int: "rne (of_int n) = n"
  by (simp add: rne_def)

text \<open>Rounding to the nearest integer is monotone.\<close>

lemma rne_mono:
  assumes "x \<le> y"
  shows "rne x \<le> rne y"
proof (cases "\<lfloor>x\<rfloor> = \<lfloor>y\<rfloor>")
  case True
  with assms have "x - of_int \<lfloor>x\<rfloor> \<le> y - of_int \<lfloor>y\<rfloor>" by simp
  with True show ?thesis by (auto simp: rne_def Let_def)
next
  case False
  with assms have "\<lfloor>x\<rfloor> + 1 \<le> \<lfloor>y\<rfloor>" using floor_mono[OF assms] by linarith
  with rne_floor[of x] rne_floor[of y] show ?thesis by linarith
qed

text \<open>The exponent that \<open>expo\<close> computes is the binade of its argument.\<close>

lemma bitlen_pos_bounds:
  assumes "0 < a"
  shows "(2::rat) powi (bitlen a - 1) \<le> of_int a" and "of_int a < (2::rat) powi (bitlen a)"
proof -
  from bitlen_bounds[OF assms] have lo: "2 ^ nat (bitlen a - 1) \<le> a" and hi: "a < 2 ^ nat (bitlen a)"
    by simp_all
  have ge: "1 \<le> bitlen a" using assms by (auto simp: bitlen_alt_def)
  from lo have "(of_int (2 ^ nat (bitlen a - 1)) :: rat) \<le> of_int a" by (simp only: of_int_le_iff)
  then show "(2::rat) powi (bitlen a - 1) \<le> of_int a" using ge by (simp add: power_int_def)
  from hi have "(of_int a :: rat) < of_int (2 ^ nat (bitlen a))" by (simp only: of_int_less_iff)
  then show "of_int a < (2::rat) powi (bitlen a)" using ge by (simp add: power_int_def)
qed

lemma expo_bounds:
  assumes "0 < x"
  shows "2 powi (expo x) \<le> x \<and> x < 2 powi (expo x + 1)"
proof -
  obtain a b where q: "quotient_of x = (a, b)" by (cases "quotient_of x")
  then have b: "0 < b" and x: "x = of_int a / of_int b"
    by (rule quotient_of_denom_pos, rule quotient_of_div)
  with assms have a: "0 < a" by (simp add: zero_less_divide_iff)
  let ?d = "bitlen a - bitlen b"
  note A = bitlen_pos_bounds[OF a] and B = bitlen_pos_bounds[OF b]
  have pb: "(0::rat) < of_int b" using b by simp
  have "x < 2 powi (bitlen a) / 2 powi (bitlen b - 1)"
    unfolding x using A(2) B(1) a
    by (intro frac_less) simp_all
  also have "\<dots> = 2 powi (bitlen a - (bitlen b - 1))"
    by (rule power_int_diff[symmetric]) simp
  also have "bitlen a - (bitlen b - 1) = ?d + 1" by simp
  finally have hi: "x < 2 powi (?d + 1)" .
  have "(2::rat) powi (?d - 1) = 2 powi (bitlen a - 1) / 2 powi (bitlen b)"
    by (simp add: power_int_diff)
  also have "\<dots> \<le> x"
    unfolding x using A(1) B(2) a b
    by (intro frac_le) simp_all
  finally have lo: "2 powi (?d - 1) \<le> x" .
  show ?thesis
  proof (cases "2 powi ?d \<le> x")
    case True
    then have "expo x = ?d" by (simp add: expo_def q)
    with True hi show ?thesis by simp
  next
    case False
    then have "expo x = ?d - 1" by (simp add: expo_def q)
    with False lo show ?thesis by simp
  qed
qed

lemma expo_mono:
  assumes "0 < x" and "x \<le> y"
  shows "expo x \<le> expo y"
proof (rule ccontr)
  assume "\<not> expo x \<le> expo y"
  then have "expo y + 1 \<le> expo x" by simp
  then have "(2::rat) powi (expo y + 1) \<le> 2 powi (expo x)"
    by (intro power_int_increasing) simp_all
  also have "\<dots> \<le> x" using expo_bounds[OF assms(1)] by simp
  also have "\<dots> \<le> y" by fact
  also have "\<dots> < 2 powi (expo y + 1)" using expo_bounds[of y] assms by simp
  finally show False by simp
qed

text \<open>
  Rounding stays inside the closed binade, hence it is monotone: within a binade by
  \<open>rne_mono\<close>, across binades by the bounds.
\<close>

lemma to_double_bounds:
  assumes "0 < x"
  shows "2 powi (expo x) \<le> to_double x \<and> to_double x \<le> 2 powi (expo x + 1)"
proof -
  let ?u = "(2::rat) powi (expo x - 52)"
  have u: "0 < ?u" by simp
  have td: "to_double x = of_int (rne (x / ?u)) * ?u"
    using assms by (simp add: to_double_def Let_def)
  have e1: "(2::rat) powi (expo x) = 2 ^ 52 * ?u"
    by (simp add: power_int_diff)
  have e2: "(2::rat) powi (expo x + 1) = 2 ^ 53 * ?u"
    by (simp add: power_int_diff power_int_add)
  from expo_bounds[OF assms] have "2 ^ 52 \<le> x / ?u" "x / ?u \<le> 2 ^ 53"
    unfolding e1 e2 using u by (simp_all add: pos_le_divide_eq pos_divide_le_eq less_imp_le)
  then have "rne (of_int (2 ^ 52)) \<le> rne (x / ?u)" "rne (x / ?u) \<le> rne (of_int (2 ^ 53))"
    by (simp_all add: rne_mono)
  then have "2 ^ 52 \<le> rne (x / ?u)" "rne (x / ?u) \<le> 2 ^ 53"
    unfolding rne_of_int by simp_all
  then have "(2 ^ 52 :: rat) \<le> of_int (rne (x / ?u))" "(of_int (rne (x / ?u)) :: rat) \<le> 2 ^ 53"
    by (metis of_int_le_iff of_int_numeral of_int_power)+
  then show ?thesis
    unfolding td e1 e2 using u by (simp add: mult_right_mono)
qed

lemma to_double_mono:
  assumes "x \<le> y"
  shows "to_double x \<le> to_double y"
proof (cases "0 < x")
  case False
  then have "to_double x = 0" by (simp add: to_double_def)
  moreover have "0 \<le> to_double y"
  proof (cases "0 < y")
    case True
    have "(0::rat) \<le> 2 powi (expo y)" by simp
    with to_double_bounds[OF True] show ?thesis by linarith
  next
    case False
    then show ?thesis by (simp add: to_double_def)
  qed
  ultimately show ?thesis by simp
next
  case True
  then have y: "0 < y" using assms by simp
  have le: "expo x \<le> expo y" by (rule expo_mono[OF True assms])
  show ?thesis
  proof (cases "expo x = expo y")
    case True
    let ?u = "(2::rat) powi (expo x - 52)"
    have u: "0 < ?u" by simp
    have "x / ?u \<le> y / ?u" using assms u by (simp add: divide_right_mono)
    then have "rne (x / ?u) \<le> rne (y / ?u)" by (rule rne_mono)
    then have "(of_int (rne (x / ?u)) :: rat) * ?u \<le> of_int (rne (y / ?u)) * ?u"
      using u by (simp add: mult_right_mono)
    then show ?thesis using \<open>0 < x\<close> y True by (simp add: to_double_def Let_def)
  next
    case False
    with le have "expo x + 1 \<le> expo y" by simp
    then have "(2::rat) powi (expo x + 1) \<le> 2 powi (expo y)"
      by (intro power_int_increasing) simp_all
    with to_double_bounds[OF \<open>0 < x\<close>] to_double_bounds[OF y] show ?thesis by linarith
  qed
qed


text \<open>
  Halving an integer below \<open>2 ^ 53\<close> is exact, so \<open>Math.floor(longLength / 2)\<close> is the
  integer division that \<open>count_verdict\<close> uses.
\<close>

lemma to_double_half_exact:
  assumes "0 \<le> n" and "n < 2 ^ 53"
  shows "js_div n 2 = of_int n / 2"
proof (cases "n = 0")
  case True
  then show ?thesis by (simp add: js_div_def to_double_def)
next
  case False
  with assms have pos: "(0::rat) < of_int n / 2" by simp
  let ?x = "(of_int n / 2 :: rat)"
  let ?e = "expo ?x"
  have "(of_int n :: rat) < of_int (2 ^ 53)" using assms by (simp only: of_int_less_iff)
  then have "?x < 2 powi 52" by simp
  with expo_bounds[OF pos] have "(2::rat) powi ?e < 2 powi 52" by linarith
  then have e: "?e < 52" by (rule power_int_le_imp_less_exp[rotated]) simp_all
  define k where "k = nat (51 - ?e)"
  have k: "int k = 51 - ?e" using e by (simp add: k_def)
  have "(2::rat) powi (?e - 52) = 2 powi (- 1 - int k)" by (simp add: k)
  also have "\<dots> = 1 / (2 * 2 ^ k)"
    by (simp add: power_int_diff power_int_minus field_simps)
  finally have u: "(2::rat) powi (?e - 52) = 1 / (2 * 2 ^ k)" .
  have q: "?x / (1 / (2 * 2 ^ k)) = of_int (n * 2 ^ k)"
    by simp
  have "to_double ?x = of_int (rne (?x / 2 powi (?e - 52))) * 2 powi (?e - 52)"
    using pos by (simp add: to_double_def Let_def)
  also have "\<dots> = of_int (rne (of_int (n * 2 ^ k))) * (1 / (2 * 2 ^ k))"
    by (simp only: u q)
  also have "\<dots> = of_int (n * 2 ^ k) * (1 / (2 * 2 ^ k))"
    by (simp only: rne_of_int)
  also have "\<dots> = ?x" by simp
  finally show ?thesis by (simp add: js_div_def)
qed

lemma floor_half_exact:
  assumes "0 \<le> n" and "n < 2 ^ 53"
  shows "\<lfloor>js_div n 2\<rfloor> = n div 2"
  unfolding to_double_half_exact[OF assms]
  by (metis floor_divide_of_int_eq of_int_numeral)

text \<open>
  The three literals, and four doubles next to them that rounding leaves unchanged.
\<close>

lemma lit_0_5_eq: "lit_0_5 = 1 / 2"
  unfolding lit_0_5_def by code_simp
lemma lit_0_9_eq: "lit_0_9 = 8106479329266893 / 2 ^ 53"
  unfolding lit_0_9_def by code_simp
lemma lit_0_1_eq: "lit_0_1 = 7205759403792794 / 2 ^ 56"
  unfolding lit_0_1_def by code_simp

lemma above_half_fixed: "to_double (1 / 2 + 1 / 2 ^ 33) = 1 / 2 + 1 / 2 ^ 33"
  by code_simp
lemma below_half_fixed: "to_double (1 / 2 - 1 / 2 ^ 33) = 1 / 2 - 1 / 2 ^ 33"
  by code_simp
lemma below_0_9_fixed:
  "to_double (8106479329266893 / 2 ^ 53 - 1 / 2 ^ 36) = 8106479329266893 / 2 ^ 53 - 1 / 2 ^ 36"
  by code_simp
lemma above_0_1_fixed:
  "to_double (7205759403792794 / 2 ^ 56 + 1 / 2 ^ 40) = 7205759403792794 / 2 ^ 56 + 1 / 2 ^ 40"
  by code_simp

text \<open>
  For a denominator below \<open>2 ^ 32\<close>, two different fractions \<open>c / n\<close> and \<open>1 / 2\<close>
  are at least \<open>1 / 2 ^ 33\<close> apart, and \<open>c / n\<close> and \<open>9 / 10\<close> or \<open>1 / 10\<close> more than
  \<open>1 / 2 ^ 36\<close>: a double lies strictly between, so the comparison of the rounded
  values is the comparison of the exact ones.
\<close>

lemma ratio_gt_half:
  assumes "0 < n" and "n < 2 ^ 32"
  shows "lit_0_5 < js_div c n \<longleftrightarrow> (1 / 2 :: rat) < of_int c / of_int n"
proof
  assume "lit_0_5 < js_div c n"
  show "(1 / 2 :: rat) < of_int c / of_int n"
  proof (rule ccontr)
    assume "\<not> (1 / 2 :: rat) < of_int c / of_int n"
    then have "(of_int c / of_int n :: rat) \<le> 1 / 2" by simp
    then have "js_div c n \<le> to_double (1 / 2)" unfolding js_div_def by (rule to_double_mono)
    with \<open>lit_0_5 < js_div c n\<close> show False by (simp add: lit_0_5_def)
  qed
next
  assume "(1 / 2 :: rat) < of_int c / of_int n"
  then have "(of_int n :: rat) < 2 * of_int c" using assms by (simp add: pos_less_divide_eq)
  then have "n < 2 * c" by (metis of_int_less_iff of_int_mult of_int_numeral)
  then have "n + 1 \<le> 2 * c" by simp
  then have "(of_int (n + 1) :: rat) \<le> of_int (2 * c)" by (simp only: of_int_le_iff)
  then have c: "(of_int n :: rat) + 1 \<le> 2 * of_int c" by simp
  have "(of_int n :: rat) < of_int (2 ^ 32)" using assms by (simp only: of_int_less_iff)
  then have n: "(of_int n :: rat) < 2 ^ 32" by simp
  have "(1 / 2 + 1 / 2 ^ 33) * (of_int n :: rat) \<le> of_int c" using c n by simp
  then have "(1 / 2 + 1 / 2 ^ 33 :: rat) \<le> of_int c / of_int n"
    using assms by (simp add: pos_le_divide_eq)
  then have "to_double (1 / 2 + 1 / 2 ^ 33) \<le> js_div c n"
    unfolding js_div_def by (rule to_double_mono)
  then show "lit_0_5 < js_div c n" unfolding above_half_fixed lit_0_5_eq by simp
qed


lemma ratio_eq_half:
  assumes "0 < n" and "n < 2 ^ 32"
  shows "js_div c n = lit_0_5 \<longleftrightarrow> (of_int c / of_int n :: rat) = 1 / 2"
proof
  assume "(of_int c / of_int n :: rat) = 1 / 2"
  then show "js_div c n = lit_0_5" by (simp add: js_div_def lit_0_5_def)
next
  assume eq: "js_div c n = lit_0_5"
  show "(of_int c / of_int n :: rat) = 1 / 2"
  proof (rule ccontr)
    assume ne: "(of_int c / of_int n :: rat) \<noteq> 1 / 2"
    have "\<not> (1 / 2 :: rat) < of_int c / of_int n"
      using ratio_gt_half[OF assms, of c] eq by simp
    with ne have "(of_int c / of_int n :: rat) < 1 / 2" by linarith
    then have "2 * (of_int c :: rat) < of_int n" using assms by (simp add: pos_divide_less_eq)
    then have "2 * c < n" by (metis of_int_less_iff of_int_mult of_int_numeral)
    then have "2 * c + 1 \<le> n" by simp
    then have "(of_int (2 * c + 1) :: rat) \<le> of_int n" by (simp only: of_int_le_iff)
    then have c: "2 * (of_int c :: rat) + 1 \<le> of_int n" by simp
    have "(of_int n :: rat) < of_int (2 ^ 32)" using assms by (simp only: of_int_less_iff)
    then have n: "(of_int n :: rat) < 2 ^ 32" by simp
    have "(of_int c :: rat) \<le> (1 / 2 - 1 / 2 ^ 33) * of_int n" using c n by simp
    then have "(of_int c / of_int n :: rat) \<le> 1 / 2 - 1 / 2 ^ 33"
      using assms by (simp add: pos_divide_le_eq)
    then have "js_div c n \<le> to_double (1 / 2 - 1 / 2 ^ 33)"
      unfolding js_div_def by (rule to_double_mono)
    then show False unfolding below_half_fixed eq lit_0_5_eq by simp
  qed
qed

lemma ratio_ge_0_9:
  assumes "0 < n" and "n < 2 ^ 32"
  shows "lit_0_9 \<le> js_div c n \<longleftrightarrow> (9 / 10 :: rat) \<le> of_int c / of_int n"
proof
  assume "(9 / 10 :: rat) \<le> of_int c / of_int n"
  then show "lit_0_9 \<le> js_div c n"
    unfolding js_div_def lit_0_9_def by (rule to_double_mono)
next
  assume ge: "lit_0_9 \<le> js_div c n"
  show "(9 / 10 :: rat) \<le> of_int c / of_int n"
  proof (rule ccontr)
    assume "\<not> (9 / 10 :: rat) \<le> of_int c / of_int n"
    then have "(of_int c / of_int n :: rat) < 9 / 10" by simp
    then have "10 * (of_int c :: rat) < 9 * of_int n" using assms by (simp add: pos_divide_less_eq)
    then have "10 * c < 9 * n" by (metis of_int_less_iff of_int_mult of_int_numeral)
    then have "10 * c + 1 \<le> 9 * n" by simp
    then have "(of_int (10 * c + 1) :: rat) \<le> of_int (9 * n)" by (simp only: of_int_le_iff)
    then have c: "10 * (of_int c :: rat) + 1 \<le> 9 * of_int n" by simp
    have "(of_int n :: rat) < of_int (2 ^ 32)" using assms by (simp only: of_int_less_iff)
    then have n: "(of_int n :: rat) < 2 ^ 32" by simp
    have "(of_int c :: rat) \<le> (8106479329266893 / 2 ^ 53 - 1 / 2 ^ 36) * of_int n"
      using c n by simp
    then have "(of_int c / of_int n :: rat) \<le> 8106479329266893 / 2 ^ 53 - 1 / 2 ^ 36"
      using assms by (simp add: pos_divide_le_eq)
    then have "js_div c n \<le> to_double (8106479329266893 / 2 ^ 53 - 1 / 2 ^ 36)"
      unfolding js_div_def by (rule to_double_mono)
    then show False using ge unfolding below_0_9_fixed lit_0_9_eq by simp
  qed
qed

lemma ratio_le_0_1:
  assumes "0 < n" and "n < 2 ^ 32"
  shows "js_div c n \<le> lit_0_1 \<longleftrightarrow> (of_int c / of_int n :: rat) \<le> 1 / 10"
proof
  assume "(of_int c / of_int n :: rat) \<le> 1 / 10"
  then show "js_div c n \<le> lit_0_1"
    unfolding js_div_def lit_0_1_def by (rule to_double_mono)
next
  assume le: "js_div c n \<le> lit_0_1"
  show "(of_int c / of_int n :: rat) \<le> 1 / 10"
  proof (rule ccontr)
    assume "\<not> (of_int c / of_int n :: rat) \<le> 1 / 10"
    then have "(1 / 10 :: rat) < of_int c / of_int n" by simp
    then have "(of_int n :: rat) < 10 * of_int c" using assms by (simp add: pos_less_divide_eq)
    then have "n < 10 * c" by (metis of_int_less_iff of_int_mult of_int_numeral)
    then have "n + 1 \<le> 10 * c" by simp
    then have "(of_int (n + 1) :: rat) \<le> of_int (10 * c)" by (simp only: of_int_le_iff)
    then have c: "(of_int n :: rat) + 1 \<le> 10 * of_int c" by simp
    have "(of_int n :: rat) < of_int (2 ^ 32)" using assms by (simp only: of_int_less_iff)
    then have n: "(of_int n :: rat) < 2 ^ 32" by simp
    have "(7205759403792794 / 2 ^ 56 + 1 / 2 ^ 40) * (of_int n :: rat) \<le> of_int c"
      using c n by simp
    then have "(7205759403792794 / 2 ^ 56 + 1 / 2 ^ 40 :: rat) \<le> of_int c / of_int n"
      using assms by (simp add: pos_le_divide_eq)
    then have "to_double (7205759403792794 / 2 ^ 56 + 1 / 2 ^ 40) \<le> js_div c n"
      unfolding js_div_def by (rule to_double_mono)
    then show False using le unfolding above_0_1_fixed lit_0_1_eq by simp
  qed
qed


lemma lit_0_1_less_0_9: "lit_0_1 < lit_0_9"
  unfolding lit_0_1_eq lit_0_9_eq by simp

section \<open>Properties of stateVerdict in ratio mode\<close>

lemma stateVerdict_A_arrays:
  assumes "2 \<le> length long" and "2 \<le> length short"
  shows "stateVerdict_A (JArr long) (JArr short) =
     Inr \<lparr>stateInProgress =
            (lit_0_5 < js_div (trueCount long) (int (length long))
             \<and> lit_0_9 \<le> js_div (trueCount short) (int (length short))),
          stateStartJudgment =
            (js_div (trueCount long) (int (length long)) = lit_0_5
             \<and> lit_0_9 \<le> js_div (trueCount short) (int (length short))),
          stateEndJudgment =
            (js_div (trueCount long) (int (length long)) = lit_0_5
             \<and> js_div (trueCount short) (int (length short)) \<le> lit_0_1)\<rparr>"
proof -
  from assms have "long \<noteq> []" "short \<noteq> []" by auto
  with assms show ?thesis by (simp add: stateVerdict_A_def Let_def)
qed

text \<open>
  Claim C1. For two arrays of at least 2 entries each (and fewer than \<open>2 ^ 32\<close>, which
  every JavaScript array has), the two-parameter \<open>stateVerdict\<close> returns the verdict
  of the specification's ratio formulas, read as exact fractions:
  stateInProgress is \<open>longRatio > 1/2 \<and> shortRatio \<ge> 9/10\<close>,
  stateStartJudgment is \<open>longRatio = 1/2 \<and> shortRatio \<ge> 9/10\<close>,
  stateEndJudgment is \<open>longRatio = 1/2 \<and> shortRatio \<le> 1/10\<close>.
  The rounding of the two quotients and of the literals 0.9 and 0.1 changes none of
  the comparisons.
\<close>

theorem ratio_mode_verdict:
  assumes "2 \<le> length long" and "2 \<le> length short"
    and "length long < 2 ^ 32" and "length short < 2 ^ 32"
  shows "stateVerdict_A (JArr long) (JArr short) = Inr (spec_ratio_formulas long short)"
proof -
  have l: "0 < int (length long)" "int (length long) < 2 ^ 32"
    using assms(1,3) by auto
  have s: "0 < int (length short)" "int (length short) < 2 ^ 32"
    using assms(2,4) by auto
  show ?thesis
    unfolding stateVerdict_A_arrays[OF assms(1,2)] spec_ratio_formulas_def Let_def
      ratio_gt_half[OF l] ratio_eq_half[OF l] ratio_ge_0_9[OF s] ratio_le_0_1[OF s]
    by simp
qed

theorem ratio_mode_verdict_witness:
  "(2::nat) \<le> length [JBool True, JBool True, JBool True, JBool False]
   \<and> (2::nat) \<le> length [JBool True, JBool True]
   \<and> length [JBool True, JBool True, JBool True, JBool False] < 2 ^ 32
   \<and> length [JBool True, JBool True] < 2 ^ 32
   \<and> stateVerdict_A (JArr [JBool True, JBool True, JBool True, JBool False])
        (JArr [JBool True, JBool True])
       = Inr \<lparr>stateInProgress = True, stateStartJudgment = False, stateEndJudgment = False\<rparr>"
proof -
  let ?long = "[JBool True, JBool True, JBool True, JBool False]"
  let ?short = "[JBool True, JBool True]"
  have h: "2 \<le> length ?long" "2 \<le> length ?short"
    "length ?long < 2 ^ 32" "length ?short < 2 ^ 32"
    by simp_all
  have v: "spec_ratio_formulas ?long ?short
      = \<lparr>stateInProgress = True, stateStartJudgment = False, stateEndJudgment = False\<rparr>"
    by (simp add: spec_ratio_formulas_def trueCount_def)
  show ?thesis using h v ratio_mode_verdict [OF h] by simp
qed

text \<open>
  Claim C2. The two-parameter \<open>stateVerdict\<close>: if one of the two arguments is not an
  array, it fails with an InvalidArgument; if both are arrays and one is empty, it
  fails with an InvalidArgument; if both are non-empty arrays and one has fewer than 2
  entries, it fails with InsufficientHistory; otherwise it returns a verdict.
\<close>

theorem ratio_mode_errors:
  "(\<not> isArray l \<or> \<not> isArray s \<longrightarrow>
       (\<exists>e. stateVerdict_A l s = Inl e \<and> kind e = InvalidArgument))
   \<and> (l = JArr long \<and> s = JArr short \<and> (long = [] \<or> short = []) \<longrightarrow>
       (\<exists>e. stateVerdict_A l s = Inl e \<and> kind e = InvalidArgument))
   \<and> (l = JArr long \<and> s = JArr short \<and> long \<noteq> [] \<and> short \<noteq> []
        \<and> (length long < 2 \<or> length short < 2) \<longrightarrow>
       (\<exists>e. stateVerdict_A l s = Inl e \<and> kind e = InsufficientHistory))
   \<and> (l = JArr long \<and> s = JArr short \<and> 2 \<le> length long \<and> 2 \<le> length short \<longrightarrow>
       (\<exists>r. stateVerdict_A l s = Inr r))"
proof (intro conjI impI)
  assume "\<not> isArray l \<or> \<not> isArray s"
  then have "stateVerdict_A l s = Inl NotArrays"
    by (cases l; cases s; simp add: stateVerdict_A_def)
  then show "\<exists>e. stateVerdict_A l s = Inl e \<and> kind e = InvalidArgument" by simp
next
  assume "l = JArr long \<and> s = JArr short \<and> (long = [] \<or> short = [])"
  then have "stateVerdict_A l s = Inl EmptyHistories"
    by (auto simp: stateVerdict_A_def)
  then show "\<exists>e. stateVerdict_A l s = Inl e \<and> kind e = InvalidArgument" by simp
next
  assume "l = JArr long \<and> s = JArr short \<and> long \<noteq> [] \<and> short \<noteq> []
        \<and> (length long < 2 \<or> length short < 2)"
  then have "stateVerdict_A l s = Inl InsufficientEntries"
    by (auto simp: stateVerdict_A_def)
  then show "\<exists>e. stateVerdict_A l s = Inl e \<and> kind e = InsufficientHistory" by simp
next
  assume "l = JArr long \<and> s = JArr short \<and> 2 \<le> length long \<and> 2 \<le> length short"
  then show "\<exists>r. stateVerdict_A l s = Inr r"
    using stateVerdict_A_arrays by simp
qed

theorem ratio_mode_errors_witness:
  "(\<exists>e. stateVerdict_A (JStr ''not array'') (JArr []) = Inl e \<and> kind e = InvalidArgument)
   \<and> (\<exists>e. stateVerdict_A (JArr []) (JArr [JBool True]) = Inl e \<and> kind e = InvalidArgument)
   \<and> (\<exists>e. stateVerdict_A (JArr [JBool True]) (JArr [JBool True]) = Inl e
            \<and> kind e = InsufficientHistory)
   \<and> (\<exists>r. stateVerdict_A (JArr [JBool True, JBool True]) (JArr [JBool True, JBool True])
            = Inr r)"
  using ratio_mode_errors [of "JStr ''not array''" "JArr []" "[]" "[]"]
    ratio_mode_errors [of "JArr []" "JArr [JBool True]" "[]" "[JBool True]"]
    ratio_mode_errors [of "JArr [JBool True]" "JArr [JBool True]" "[JBool True]" "[JBool True]"]
    ratio_mode_errors [of "JArr [JBool True, JBool True]" "JArr [JBool True, JBool True]"
      "[JBool True, JBool True]" "[JBool True, JBool True]"]
  by simp

text \<open>
  Claim C7. For the two-parameter \<open>stateVerdict\<close> and two arrays of at least 2 entries
  each, the returned stateStartJudgment and stateEndJudgment are never both true; and
  there is such a call that returns both false.
\<close>

theorem ratio_mode_start_end_exclusive:
  assumes "2 \<le> length long" and "2 \<le> length short"
    and "stateVerdict_A (JArr long) (JArr short) = Inr r"
  shows "\<not> (stateStartJudgment r \<and> stateEndJudgment r)
       \<and> (\<exists>long' short' r'. 2 \<le> length long' \<and> 2 \<le> length short'
             \<and> stateVerdict_A (JArr long') (JArr short') = Inr r'
             \<and> \<not> stateStartJudgment r' \<and> \<not> stateEndJudgment r')"
proof
  from assms(3) show "\<not> (stateStartJudgment r \<and> stateEndJudgment r)"
    unfolding stateVerdict_A_arrays[OF assms(1,2)]
    using lit_0_1_less_0_9 by auto
next
  let ?long = "[JBool False, JBool False, JBool False, JBool False]"
  let ?short = "[JBool False, JBool False]"
  have z: "js_div 0 4 = 0" "js_div 0 2 = 0" by (simp_all add: js_div_def to_double_def)
  have "stateVerdict_A (JArr ?long) (JArr ?short) = Inr all_false"
    by (simp add: stateVerdict_A_def trueCount_def z lit_0_5_eq lit_0_9_eq all_false_def)
  then show "\<exists>long' short' r'. 2 \<le> length long' \<and> 2 \<le> length short'
             \<and> stateVerdict_A (JArr long') (JArr short') = Inr r'
             \<and> \<not> stateStartJudgment r' \<and> \<not> stateEndJudgment r'"
    by (intro exI[of _ ?long] exI[of _ ?short] exI[of _ all_false]) (simp add: all_false_def)
qed

theorem ratio_mode_start_end_exclusive_witness:
  "(2::nat) \<le> length [JBool False, JBool False, JBool True, JBool True]
   \<and> (2::nat) \<le> length [JBool True, JBool True]
   \<and> stateVerdict_A (JArr [JBool False, JBool False, JBool True, JBool True])
        (JArr [JBool True, JBool True])
       = Inr \<lparr>stateInProgress = False, stateStartJudgment = True, stateEndJudgment = False\<rparr>
   \<and> stateStartJudgment
        \<lparr>stateInProgress = False, stateStartJudgment = True, stateEndJudgment = False\<rparr>
   \<and> stateEndJudgment
        \<lparr>stateInProgress = False, stateStartJudgment = True, stateEndJudgment = False\<rparr> = False"
proof -
  let ?long = "[JBool False, JBool False, JBool True, JBool True]"
  let ?short = "[JBool True, JBool True]"
  have h: "2 \<le> length ?long" "2 \<le> length ?short" by simp_all
  have v: "stateVerdict_A (JArr ?long) (JArr ?short)
       = Inr \<lparr>stateInProgress = False, stateStartJudgment = True, stateEndJudgment = False\<rparr>"
    by code_simp
  show ?thesis using h v ratio_mode_start_end_exclusive [OF h v] by simp
qed

end
